theory Spec2Isabelle
  imports Main "HOL-Library.Sublist"
begin

section \<open>Strings and the Python built-ins used by app.py\<close>

text \<open>
  A Python \<open>str\<close> is modelled as a \<open>string\<close> whose characters are the code points
  below 256 (so the accented letters of the Spanish messages are single characters).
  An exception is a value of type \<open>error\<close>; every exception raised inside
  \<open>parse_page_range\<close> is caught by its \<open>except Exception\<close>, so one constructor for
  \<open>ValueError\<close> and one for a failure of an external library are enough.
\<close>

datatype error = ValueError | ExternalError

text \<open>\<open>s.split(c)\<close> for a one-character separator: never the empty list.\<close>

fun py_split :: "char \<Rightarrow> string \<Rightarrow> string list" where
  "py_split c [] = [[]]"
| "py_split c (x # xs) =
     (if x = c then [] # py_split c xs
      else (case py_split c xs of
              [] \<Rightarrow> [[x]]
            | p # ps \<Rightarrow> (x # p) # ps))"

text \<open>\<open>sub in s\<close> for strings.\<close>

fun py_contains :: "string \<Rightarrow> string \<Rightarrow> bool" where
  "py_contains sub [] = (sub = [])"
| "py_contains sub (c # cs) = (prefix sub (c # cs) \<or> py_contains sub cs)"

text \<open>
  \<open>int(s)\<close> in base 10, as CPython reads it: surrounding whitespace is skipped
  (tab, line feed, vertical tab, form feed, carriage return, space, and the two
  non-ASCII spaces below 256), then an optional sign, then decimal digits in which
  single underscores may stand between two digits. Anything else raises
  \<open>ValueError\<close>, here \<open>None\<close>. The interpreter setting
  \<open>sys.get_int_max_str_digits()\<close> is the parameter \<open>lim\<close> (0 switches the limit
  off, 4300 is the default since Python 3.11): more digits than that raise
  \<open>ValueError\<close> as well.
\<close>

definition py_isspace :: "char \<Rightarrow> bool" where
  "py_isspace c = (of_char c \<in> set [9, 10, 11, 12, 13, 32, 133, 160 :: nat])"

definition is_digit :: "char \<Rightarrow> bool" where
  "is_digit c = (48 \<le> (of_char c :: nat) \<and> (of_char c :: nat) \<le> 57)"

definition digit_val :: "char \<Rightarrow> int" where
  "digit_val c = int (of_char c) - 48"

definition py_strip :: "string \<Rightarrow> string" where
  "py_strip s = rev (dropWhile py_isspace (rev (dropWhile py_isspace s)))"

fun py_digits :: "string \<Rightarrow> int list option" where
  "py_digits [] = None"
| "py_digits [c] = (if is_digit c then Some [digit_val c] else None)"
| "py_digits (c # d # cs) =
     (if \<not> is_digit c then None
      else if d = CHR ''_'' then map_option ((#) (digit_val c)) (py_digits cs)
      else map_option ((#) (digit_val c)) (py_digits (d # cs)))"

definition digits_value :: "int list \<Rightarrow> int" where
  "digits_value ds = foldl (\<lambda>acc d. 10 * acc + d) 0 ds"

definition py_int :: "nat \<Rightarrow> string \<Rightarrow> int option" where
  "py_int lim s =
     (let t = py_strip s;
          neg = (t \<noteq> [] \<and> hd t = CHR ''-'');
          body = (if t \<noteq> [] \<and> (hd t = CHR ''+'' \<or> hd t = CHR ''-'') then tl t else t)
      in case py_digits body of
           None \<Rightarrow> None
         | Some ds \<Rightarrow>
             if 640 < length ds \<and> 0 < lim \<and> lim < length ds then None
             else Some (if neg then - digits_value ds else digits_value ds))"

text \<open>\<open>str(n)\<close> for an integer, as an f-string renders it.\<close>

fun nat_digits :: "nat \<Rightarrow> string" where
  "nat_digits n =
     (if n < 10 then [char_of (48 + n)]
      else nat_digits (n div 10) @ [char_of (48 + n mod 10)])"

declare nat_digits.simps [simp del]

definition py_str :: "int \<Rightarrow> string" where
  "py_str i = (if i < 0 then CHR ''-'' # nat_digits (nat (- i)) else nat_digits (nat i))"

text \<open>\<open>list(range(n))\<close>: empty when \<open>n \<le> 0\<close>.\<close>

definition py_range :: "int \<Rightarrow> int list" where
  "py_range n = [0..n - 1]"

section \<open>parse_page_range\<close>

text \<open>
  \<open>start, end = map(int, part.split('-'))\<close>: the unpacking succeeds only when there
  are exactly two pieces and \<open>int\<close> accepts both; a piece that \<open>int\<close> rejects, a
  missing second value and a third value all raise \<open>ValueError\<close>.
\<close>

definition unpack_pair :: "nat \<Rightarrow> string list \<Rightarrow> error + (int \<times> int)" where
  "unpack_pair lim pieces =
     (case pieces of
        [a, b] \<Rightarrow>
          (case py_int lim a of
             None \<Rightarrow> Inl ValueError
           | Some start \<Rightarrow>
               (case py_int lim b of
                  None \<Rightarrow> Inl ValueError
                | Some endp \<Rightarrow> Inr (start, endp)))
      | _ \<Rightarrow> Inl ValueError)"

text \<open>
  The \<open>for part in parts\<close> loop of the \<open>try\<close> block; \<open>pages\<close> is the set built so
  far. The first exception leaves the loop.
\<close>

fun parse_parts :: "nat \<Rightarrow> int \<Rightarrow> string list \<Rightarrow> int set \<Rightarrow> error + int set" where
  "parse_parts lim max_pages [] pages = Inr pages"
| "parse_parts lim max_pages (part # parts) pages =
     (if CHR ''-'' \<in> set part then
        (case unpack_pair lim (py_split CHR ''-'' part) of
           Inl e \<Rightarrow> Inl e
         | Inr (start, endp) \<Rightarrow>
             if start > 0 \<and> endp \<le> max_pages \<and> start \<le> endp
             then parse_parts lim max_pages parts (pages \<union> {start - 1..<endp})
             else parse_parts lim max_pages parts pages)
      else
        (case py_int lim part of
           None \<Rightarrow> Inl ValueError
         | Some page \<Rightarrow>
             if page > 0 \<and> page \<le> max_pages
             then parse_parts lim max_pages parts (insert (page - 1) pages)
             else parse_parts lim max_pages parts pages))"

text \<open>
  Notifications shown to the user (\<open>st.error\<close>, \<open>st.warning\<close>, ...) are values of
  type \<open>notice\<close>. \<open>parse_page_range\<close> returns the notices it shows together with
  its list of 0-indexed pages.
\<close>

datatype notice = Success string | Error string | Info string | Warning string

definition invalid_range_msg :: string where
  "invalid_range_msg =
     ''Rango de p'' @ [CHR 0xE1] @ ''ginas inv'' @ [CHR 0xE1] @
     ''lido. Usando todas las p'' @ [CHR 0xE1] @ ''ginas.''"

definition parse_page_range :: "nat \<Rightarrow> string \<Rightarrow> int \<Rightarrow> notice list \<times> int list" where
  "parse_page_range lim range_str max_pages =
     (if range_str = [] then ([], py_range max_pages)
      else (case parse_parts lim max_pages (py_split CHR '','' range_str) {} of
              Inr pages \<Rightarrow> ([], sorted_list_of_set pages)
            | Inl e \<Rightarrow> ([Error invalid_range_msg], py_range max_pages)))"

section \<open>What a token denotes\<close>

text \<open>
  A token is cut at its hyphens. One piece that \<open>int\<close> accepts is a single page
  \<open>k\<close>, read as the span \<open>(k, k)\<close>; two pieces that \<open>int\<close> accepts are the span
  \<open>(a, b)\<close>; everything else is malformed. In particular a number written with a
  minus sign is malformed, although \<open>int\<close> accepts it: the hyphen cuts \<open>-5\<close> into an
  empty piece and \<open>5\<close>. A span inside \<open>[1, max_pages]\<close> denotes the 0-indexed pages
  \<open>a - 1, ..., b - 1\<close>; any other span denotes no page.
\<close>

definition token_span :: "nat \<Rightarrow> string \<Rightarrow> (int \<times> int) option" where
  "token_span lim t =
     (case py_split CHR ''-'' t of
        [x] \<Rightarrow> map_option (\<lambda>k. (k, k)) (py_int lim x)
      | [x, y] \<Rightarrow>
          (case py_int lim x of
             None \<Rightarrow> None
           | Some a \<Rightarrow> map_option (\<lambda>b. (a, b)) (py_int lim y))
      | _ \<Rightarrow> None)"

definition well_formed :: "nat \<Rightarrow> string \<Rightarrow> bool" where
  "well_formed lim t = (case token_span lim t of None \<Rightarrow> False | Some ab \<Rightarrow> True)"

definition span_in_range :: "int \<Rightarrow> int \<times> int \<Rightarrow> bool" where
  "span_in_range max_pages ab = (1 \<le> fst ab \<and> fst ab \<le> snd ab \<and> snd ab \<le> max_pages)"

definition span_pages :: "int \<Rightarrow> int \<times> int \<Rightarrow> int set" where
  "span_pages max_pages ab =
     (if span_in_range max_pages ab then {fst ab - 1..snd ab - 1} else {})"

definition token_pages :: "nat \<Rightarrow> int \<Rightarrow> string \<Rightarrow> int set" where
  "token_pages lim max_pages t =
     (case token_span lim t of None \<Rightarrow> {} | Some ab \<Rightarrow> span_pages max_pages ab)"

text \<open>
  An input written token by token: a page token is one numeral, a span token is two
  numerals with a hyphen between them, and the input string is the tokens joined by
  commas (\<open>','.join\<close>). A numeral is any string that \<open>int\<close> accepts, so blanks
  around a number and leading zeros are allowed. The numerals of a valid token have
  values of at least 1, and therefore hold no hyphen.
\<close>

datatype token = Page string | Span string string

fun render :: "token \<Rightarrow> string" where
  "render (Page x) = x"
| "render (Span x y) = x @ ''-'' @ y"

fun py_join :: "char \<Rightarrow> string list \<Rightarrow> string" where
  "py_join sep [] = []"
| "py_join sep [x] = x"
| "py_join sep (x # y # ys) = x @ sep # py_join sep (y # ys)"

fun token_value :: "nat \<Rightarrow> token \<Rightarrow> (int \<times> int) option" where
  "token_value lim (Page x) = map_option (\<lambda>k. (k, k)) (py_int lim x)"
| "token_value lim (Span x y) =
     (case py_int lim x of
        None \<Rightarrow> None
      | Some a \<Rightarrow> map_option (\<lambda>b. (a, b)) (py_int lim y))"

definition valid_token :: "nat \<Rightarrow> int \<Rightarrow> token \<Rightarrow> bool" where
  "valid_token lim max_pages tok =
     (case token_value lim tok of
        None \<Rightarrow> False
      | Some ab \<Rightarrow> 1 \<le> fst ab \<and> fst ab \<le> snd ab \<and> snd ab \<le> max_pages)"

definition denoted_pages :: "nat \<Rightarrow> token \<Rightarrow> int set" where
  "denoted_pages lim tok =
     (case token_value lim tok of
        None \<Rightarrow> {}
      | Some ab \<Rightarrow> {fst ab - 1..snd ab - 1})"

text \<open>The reading of the specification in which endpoints are clamped into \<open>[1, max_pages]\<close>.\<close>

definition clamp_endpoint :: "int \<Rightarrow> int \<Rightarrow> int" where
  "clamp_endpoint max_pages k = max 1 (min max_pages k)"

definition clamped_pages :: "int \<Rightarrow> int \<times> int \<Rightarrow> int set" where
  "clamped_pages max_pages ab =
     {clamp_endpoint max_pages (fst ab) - 1..clamp_endpoint max_pages (snd ab) - 1}"

section \<open>convert_ocr\<close>

text \<open>
  The Word document is the list of the blocks added to it, in order. The rasterizer
  \<open>convert_from_bytes\<close> (pdf2image) and the OCR engine \<open>image_to_string\<close>
  (pytesseract) are external: they are parameters, and either may fail. The progress
  notices of \<open>convert_ocr\<close> do not reach the document and are left out.
\<close>

datatype block = Heading nat string | Paragraph string | PageBreak

text \<open>
  python-docx stores the text of a heading or a paragraph in the XML tree of the
  document, and the XML library refuses a string that holds a control character:
  below code point 32 only tab, line feed and carriage return are accepted (a form
  feed, which Tesseract puts at the end of a page, is not), and the call raises
  \<open>ValueError\<close>. \<open>add_heading\<close> also raises \<open>ValueError\<close> for a level above 9.
\<close>

definition xml_char :: "char \<Rightarrow> bool" where
  "xml_char c =
     ((of_char c :: nat) = 9 \<or> (of_char c :: nat) = 10 \<or> (of_char c :: nat) = 13 \<or>
      32 \<le> (of_char c :: nat))"

definition xml_compatible :: "string \<Rightarrow> bool" where
  "xml_compatible s = list_all xml_char s"

definition add_heading :: "string \<Rightarrow> nat \<Rightarrow> block list \<Rightarrow> error + block list" where
  "add_heading text level doc =
     (if 9 < level then Inl ValueError
      else if xml_compatible text then Inr (doc @ [Heading level text])
      else Inl ValueError)"

definition add_paragraph :: "string \<Rightarrow> block list \<Rightarrow> error + block list" where
  "add_paragraph text doc =
     (if xml_compatible text then Inr (doc @ [Paragraph text]) else Inl ValueError)"

definition add_page_break :: "block list \<Rightarrow> block list" where
  "add_page_break doc = doc @ [PageBreak]"

definition py_min :: "int list \<Rightarrow> error + int" where
  "py_min xs = (case xs of [] \<Rightarrow> Inl ValueError | x # r \<Rightarrow> Inr (fold min r x))"

definition py_max :: "int list \<Rightarrow> error + int" where
  "py_max xs = (case xs of [] \<Rightarrow> Inl ValueError | x # r \<Rightarrow> Inr (fold max r x))"

definition ocr_title :: "string \<Rightarrow> string" where
  "ocr_title lang_code = ''Documento Convertido por OCR ('' @ lang_code @ '')''"

definition page_heading :: "int \<Rightarrow> string" where
  "page_heading page_num = ''--- P'' @ [CHR 0xE1] @ ''gina '' @ py_str page_num @ '' ---''"

text \<open>
  The loop \<open>for i, img in enumerate(images)\<close>: \<open>i\<close> is the index of the next image,
  \<open>doc\<close> the document so far. An exception of the OCR engine or of the document
  library leaves the loop, and \<open>convert_ocr\<close> with it.
\<close>

fun ocr_images ::
  "('img \<Rightarrow> string \<Rightarrow> error + string) \<Rightarrow> string \<Rightarrow> int \<Rightarrow> int \<Rightarrow> 'img list \<Rightarrow>
   block list \<Rightarrow> error + block list" where
  "ocr_images image_to_string lang_code first_page i [] doc = Inr doc"
| "ocr_images image_to_string lang_code first_page i (img # images) doc =
     (let page_num = i + first_page in
      case image_to_string img lang_code of
        Inl e \<Rightarrow> Inl e
      | Inr text \<Rightarrow>
          (case add_heading (page_heading page_num) 3 doc of
             Inl e \<Rightarrow> Inl e
           | Inr doc1 \<Rightarrow>
               (case add_paragraph text doc1 of
                  Inl e \<Rightarrow> Inl e
                | Inr doc2 \<Rightarrow>
                    ocr_images image_to_string lang_code first_page (i + 1) images
                      (add_page_break doc2))))"

definition convert_ocr ::
  "('pdf \<Rightarrow> int \<Rightarrow> int \<Rightarrow> error + 'img list) \<Rightarrow> ('img \<Rightarrow> string \<Rightarrow> error + string) \<Rightarrow>
   'pdf \<Rightarrow> string \<Rightarrow> int list \<Rightarrow> error + block list" where
  "convert_ocr convert_from_bytes image_to_string pdf_bytes lang_code pages_to_convert =
     (let pages_1_indexed = map (\<lambda>p. p + 1) pages_to_convert in
      case py_min pages_1_indexed of
        Inl e \<Rightarrow> Inl e
      | Inr first_page \<Rightarrow>
          (case py_max pages_1_indexed of
             Inl e \<Rightarrow> Inl e
           | Inr last_page \<Rightarrow>
               (case convert_from_bytes pdf_bytes first_page last_page of
                  Inl e \<Rightarrow> Inl e
                | Inr images \<Rightarrow>
                    (case add_heading (ocr_title lang_code) 0 [] of
                       Inl e \<Rightarrow> Inl e
                     | Inr doc \<Rightarrow>
                         ocr_images image_to_string lang_code first_page 0 images doc))))"

section \<open>The conversion request\<close>

text \<open>
  The two options of the mode selector, and the branch taken when the button
  ``Convertir a Word'' is pressed. The result lists the conversion functions that are
  called, with their arguments; \<open>convert_digital\<close> has no language parameter.
\<close>

datatype 'pdf call = Call_convert_digital 'pdf "int list" | Call_convert_ocr 'pdf string "int list"

definition digital_option :: string where
  "digital_option = ''Digital (Formato perfecto, r'' @ [CHR 0xE1] @ ''pido)''"

definition ocr_option :: string where
  "ocr_option = ''Escaneado (OCR, m'' @ [CHR 0xE1] @ ''s lento)''"

definition convert_click :: "nat \<Rightarrow> string \<Rightarrow> string \<Rightarrow> 'pdf \<Rightarrow> string \<Rightarrow> 'pdf call list" where
  "convert_click lim modo_conversion lang pdf_bytes page_range_str =
     (let pages_list = snd (parse_page_range lim page_range_str 500) in
      if pages_list = [] then []
      else if py_contains ''Digital'' modo_conversion
           then [Call_convert_digital pdf_bytes pages_list]
      else if py_contains ''Escaneado'' modo_conversion
           then [Call_convert_ocr pdf_bytes lang pages_list]
      else [])"

section \<open>The dependency check\<close>

text \<open>
  \<open>shutil.which\<close> is the parameter \<open>which\<close>: the path of a program, or \<open>None\<close>. The
  check returns the sidebar notices in the order they are shown, and the
  \<open>disabled\<close> flag given to the mode selector.
\<close>

definition tesseract_missing_msg :: string where
  "tesseract_missing_msg = ''Tesseract NO encontrado.''"

definition poppler_missing_msg :: string where
  "poppler_missing_msg = ''Poppler NO encontrado.''"

definition install_tesseract_msg :: string where
  "install_tesseract_msg =
     ''Instala Tesseract-OCR en tu sistema para habilitar la conversi'' @ [CHR 0xF3] @
     ''n de PDFs escaneados.''"

definition install_poppler_msg :: string where
  "install_poppler_msg =
     ''Instala Poppler en tu sistema para habilitar la conversi'' @ [CHR 0xF3] @
     ''n de PDFs escaneados.''"

definition ocr_disabled_msg :: string where
  "ocr_disabled_msg =
     ''Modo OCR deshabilitado. Ver '' @ [CHR 0x27] @ ''Estado del Sistema'' @ [CHR 0x27] @ ''.''"

definition dependency_check :: "(string \<Rightarrow> string option) \<Rightarrow> notice list \<times> bool" where
  "dependency_check which =
     (let tesseract_ok = (which ''tesseract'' \<noteq> None);
          poppler_ok = (which ''pdftoppm'' \<noteq> None);
          n1 = (if tesseract_ok then [Success ''Tesseract (OCR) detectado.'']
                else [Error tesseract_missing_msg, Info install_tesseract_msg]);
          n2 = (if poppler_ok then [Success ''Poppler (PDF) detectado.'']
                else [Error poppler_missing_msg, Info install_poppler_msg]);
          ocr_disabled = (\<not> (tesseract_ok \<and> poppler_ok));
          n3 = (if ocr_disabled then [Warning ocr_disabled_msg] else [])
      in (n1 @ n2 @ n3, ocr_disabled))"

section \<open>Splitting and joining\<close>

lemma py_split_ne: "py_split c s \<noteq> []"
  by (induction s) (auto split: list.splits)

lemma py_split_no_sep: "c \<notin> set s \<Longrightarrow> py_split c s = [s]"
  by (induction s) auto

lemma py_split_sep_len: "c \<in> set s \<Longrightarrow> 2 \<le> length (py_split c s)"
proof (induction s)
  case Nil then show ?case by simp
next
  case (Cons x xs)
  show ?case
  proof (cases "x = c")
    case True
    then show ?thesis using py_split_ne [of c xs] by (cases "py_split c xs") auto
  next
    case False
    with Cons.prems have "c \<in> set xs" by simp
    from Cons.IH [OF this] False show ?thesis by (auto split: list.splits)
  qed
qed

lemma py_split_append: "py_split c (s @ c # t) = py_split c s @ py_split c t"
proof (induction s)
  case Nil
  then show ?case by simp
next
  case (Cons x xs)
  then show ?case using py_split_ne [of c xs] by (cases "py_split c xs") auto
qed

lemma py_split_join:
  "ts \<noteq> [] \<Longrightarrow> \<forall>t \<in> set ts. c \<notin> set t \<Longrightarrow> py_split c (py_join c ts) = ts"
proof (induction c ts rule: py_join.induct)
  case (1 sep)
  then show ?case by simp
next
  case (2 sep x)
  then show ?case by (simp add: py_split_no_sep)
next
  case (3 sep x y ys)
  then show ?case by (simp add: py_split_append py_split_no_sep)
qed

lemma py_join_ne: "ts \<noteq> [] \<Longrightarrow> \<forall>t \<in> set ts. t \<noteq> [] \<Longrightarrow> py_join c ts \<noteq> []"
  by (induction c ts rule: py_join.induct) auto

section \<open>What int accepts\<close>

lemma py_digits_chars:
  "py_digits s = Some ds \<Longrightarrow>
   (\<forall>c \<in> set s. is_digit c \<or> c = CHR ''_'') \<and> (\<forall>d \<in> set ds. 0 \<le> d)"
proof (induction s arbitrary: ds rule: py_digits.induct)
  case 1
  then show ?case by simp
next
  case (2 c)
  then show ?case by (auto simp: is_digit_def digit_val_def split: if_splits)
next
  case (3 c d cs)
  from "3.prems" have dc: "is_digit c" by (auto split: if_splits)
  then have dv: "0 \<le> digit_val c" by (simp add: is_digit_def digit_val_def)
  show ?case
  proof (cases "d = CHR ''_''")
    case True
    with "3.prems" dc obtain r where r: "py_digits cs = Some r" "ds = digit_val c # r" by auto
    from "3.IH"(1) [OF _ True r(1)] dc
    have "(\<forall>c \<in> set cs. is_digit c \<or> c = CHR ''_'') \<and> (\<forall>d \<in> set r. 0 \<le> d)"
      by simp
    with dc dv True r show ?thesis by auto
  next
    case False
    with "3.prems" dc obtain r where r: "py_digits (d # cs) = Some r" "ds = digit_val c # r"
      by auto
    from "3.IH"(2) [OF _ False r(1)] dc
    have "(\<forall>c \<in> set (d # cs). is_digit c \<or> c = CHR ''_'') \<and> (\<forall>d \<in> set r. 0 \<le> d)"
      by simp
    with dc dv r show ?thesis by auto
  qed
qed

lemma foldl_digits_nonneg:
  "\<forall>d \<in> set ds. (0::int) \<le> d \<Longrightarrow> 0 \<le> acc \<Longrightarrow> 0 \<le> foldl (\<lambda>acc d. 10 * acc + d) acc ds"
  by (induction ds arbitrary: acc) auto

lemma digits_value_nonneg: "\<forall>d \<in> set ds. 0 \<le> d \<Longrightarrow> 0 \<le> digits_value ds"
  unfolding digits_value_def by (rule foldl_digits_nonneg) simp_all

lemma in_dropWhile: "c \<in> set s \<Longrightarrow> \<not> P c \<Longrightarrow> c \<in> set (dropWhile P s)"
  by (induction s) auto

lemma in_py_strip: "c \<in> set s \<Longrightarrow> \<not> py_isspace c \<Longrightarrow> c \<in> set (py_strip s)"
  unfolding py_strip_def by (simp add: in_dropWhile)

lemma py_int_chars:
  assumes "py_int lim s = Some k" and "c \<in> set s"
  shows "py_isspace c \<or> is_digit c \<or> c = CHR ''_'' \<or> c = CHR ''+'' \<or> c = CHR ''-''"
proof (cases "py_isspace c")
  case True
  then show ?thesis by simp
next
  case False
  define t where "t = py_strip s"
  define body where
    "body = (if t \<noteq> [] \<and> (hd t = CHR ''+'' \<or> hd t = CHR ''-'') then tl t else t)"
  from assms(1) have "py_digits body \<noteq> None"
    unfolding py_int_def Let_def body_def t_def by (auto split: option.splits)
  then obtain ds where ds: "py_digits body = Some ds" by blast
  from in_py_strip [OF assms(2) False] have ct: "c \<in> set t" by (simp add: t_def)
  then have "c \<in> set body \<or> c = CHR ''+'' \<or> c = CHR ''-''"
    by (cases t) (auto simp: body_def)
  with py_digits_chars [OF ds] show ?thesis by auto
qed

lemma py_int_no_comma: "py_int lim s = Some k \<Longrightarrow> CHR '','' \<notin> set s"
proof
  assume a: "py_int lim s = Some k" and b: "CHR '','' \<in> set s"
  from py_int_chars [OF a b] show False by (simp add: py_isspace_def is_digit_def)
qed

lemma py_int_ne: "py_int lim s = Some k \<Longrightarrow> s \<noteq> []"
  by (auto simp: py_int_def py_strip_def)

lemma py_int_hyphen_nonpos:
  assumes "py_int lim s = Some k" and h: "CHR ''-'' \<in> set s"
  shows "k \<le> 0"
proof -
  define t where "t = py_strip s"
  define body where
    "body = (if t \<noteq> [] \<and> (hd t = CHR ''+'' \<or> hd t = CHR ''-'') then tl t else t)"
  from assms(1) obtain ds where ds: "py_digits body = Some ds"
    and k: "k = (if t \<noteq> [] \<and> hd t = CHR ''-'' then - digits_value ds else digits_value ds)"
    by (auto simp: py_int_def Let_def t_def body_def split: option.splits if_splits)
  from py_digits_chars [OF ds] have body: "\<forall>c \<in> set body. is_digit c \<or> c = CHR ''_''"
    and nn: "0 \<le> digits_value ds" by (simp_all add: digits_value_nonneg)
  have "\<not> py_isspace CHR ''-''" by (simp add: py_isspace_def)
  from in_py_strip [OF h this] have ht: "CHR ''-'' \<in> set t" by (simp add: t_def)
  show ?thesis
  proof (cases "hd t = CHR ''-''")
    case True
    with ht k nn show ?thesis by (cases t) auto
  next
    case False
    with ht have "CHR ''-'' \<in> set body" by (cases t) (auto simp: body_def)
    with body show ?thesis by (auto simp: is_digit_def)
  qed
qed

lemma py_int_pos_no_hyphen: "py_int lim s = Some k \<Longrightarrow> 0 < k \<Longrightarrow> CHR ''-'' \<notin> set s"
  using py_int_hyphen_nonpos [of lim s k] by fastforce

section \<open>The loop of parse_page_range\<close>

lemma parse_parts_step:
  "parse_parts lim mx (p # ps) acc =
     (case token_span lim p of
        None \<Rightarrow> Inl ValueError
      | Some ab \<Rightarrow> parse_parts lim mx ps (acc \<union> span_pages mx ab))"
proof (cases "CHR ''-'' \<in> set p")
  case True
  from py_split_sep_len [OF True] obtain x y zs where s: "py_split CHR ''-'' p = x # y # zs"
    by (cases "py_split CHR ''-'' p"; cases "tl (py_split CHR ''-'' p)") auto
  show ?thesis
    using True s
    by (cases zs)
       (auto simp: token_span_def unpack_pair_def span_pages_def span_in_range_def
             atLeastLessThan_def atLeastAtMost_def lessThan_def atMost_def
             split: option.splits)
next
  case False
  then show ?thesis
    by (auto simp: token_span_def py_split_no_sep span_pages_def span_in_range_def
             split: option.splits)
qed

lemma parse_parts_ok:
  "\<forall>p \<in> set ps. well_formed lim p \<Longrightarrow>
   parse_parts lim mx ps acc = Inr (acc \<union> (\<Union>p \<in> set ps. token_pages lim mx p))"
proof (induction ps arbitrary: acc)
  case Nil
  then show ?case by simp
next
  case (Cons p ps)
  from Cons.prems obtain ab where ab: "token_span lim p = Some ab"
    by (auto simp: well_formed_def split: option.splits)
  from Cons.prems have rest: "\<forall>q \<in> set ps. well_formed lim q" by simp
  show ?case
    unfolding parse_parts_step
    using ab Cons.IH [OF rest] by (auto simp: token_pages_def)
qed

lemma parse_parts_raises:
  "\<exists>p \<in> set ps. \<not> well_formed lim p \<Longrightarrow> parse_parts lim mx ps acc = Inl ValueError"
proof (induction ps arbitrary: acc)
  case Nil
  then show ?case by simp
next
  case (Cons p ps)
  show ?case
  proof (cases "token_span lim p")
    case None
    then show ?thesis unfolding parse_parts_step by simp
  next
    case (Some ab)
    then have "well_formed lim p" by (simp add: well_formed_def)
    with Cons.prems have "\<exists>q \<in> set ps. \<not> well_formed lim q" by auto
    from Cons.IH [OF this] Some show ?thesis unfolding parse_parts_step by simp
  qed
qed

lemma parse_parts_char:
  "parse_parts lim mx ps acc =
     (if \<forall>p \<in> set ps. well_formed lim p
      then Inr (acc \<union> (\<Union>p \<in> set ps. token_pages lim mx p))
      else Inl ValueError)"
proof (cases "\<forall>p \<in> set ps. well_formed lim p")
  case True
  from parse_parts_ok [OF True] True show ?thesis by simp
next
  case False
  then have "\<exists>p \<in> set ps. \<not> well_formed lim p" by simp
  from parse_parts_raises [OF this] False show ?thesis by simp
qed

lemma parse_page_range_char:
  "s \<noteq> [] \<Longrightarrow>
   parse_page_range lim s max_pages =
     (if \<forall>p \<in> set (py_split CHR '','' s). well_formed lim p
      then ([], sorted_list_of_set
                  (\<Union>p \<in> set (py_split CHR '','' s). token_pages lim max_pages p))
      else ([Error invalid_range_msg], py_range max_pages))"
  unfolding parse_page_range_def parse_parts_char by simp

lemma span_pages_bounds: "span_pages mx ab \<subseteq> {0..mx - 1}"
  by (auto simp: span_pages_def span_in_range_def)

lemma finite_span_pages: "finite (span_pages mx ab)"
  by (simp add: span_pages_def)

lemma token_pages_bounds: "token_pages lim mx t \<subseteq> {0..mx - 1}"
  using span_pages_bounds by (auto simp: token_pages_def split: option.splits)

lemma finite_token_pages: "finite (token_pages lim mx t)"
  by (simp add: token_pages_def finite_span_pages split: option.splits)

lemma py_range_strict: "sorted_wrt (<) (py_range n)"
  by (simp add: py_range_def strict_sorted_iff)

lemma py_range_set: "set (py_range n) = {0..n - 1}"
  by (simp add: py_range_def)

section \<open>Tokens written out\<close>

lemma token_span_render:
  assumes "valid_token lim mx tok"
  shows "token_span lim (render tok) = token_value lim tok"
proof (cases tok)
  case (Page x)
  with assms obtain k where k: "py_int lim x = Some k" "1 \<le> k"
    by (auto simp: valid_token_def split: option.splits)
  then have "CHR ''-'' \<notin> set x" using py_int_pos_no_hyphen [of lim x k] by simp
  with Page show ?thesis by (simp add: token_span_def py_split_no_sep)
next
  case (Span x y)
  with assms obtain a b
    where ab: "py_int lim x = Some a" "py_int lim y = Some b" "1 \<le> a" "a \<le> b"
    by (auto simp: valid_token_def split: option.splits)
  then have "CHR ''-'' \<notin> set x" "CHR ''-'' \<notin> set y"
    using py_int_pos_no_hyphen [of lim x a] py_int_pos_no_hyphen [of lim y b] by simp_all
  with Span ab show ?thesis
    by (simp add: token_span_def py_split_append py_split_no_sep)
qed

lemma render_no_comma:
  assumes "valid_token lim mx tok"
  shows "CHR '','' \<notin> set (render tok)"
proof (cases tok)
  case (Page x)
  with assms show ?thesis
    by (auto simp: valid_token_def dest: py_int_no_comma split: option.splits)
next
  case (Span x y)
  with assms show ?thesis
    by (auto simp: valid_token_def dest: py_int_no_comma split: option.splits)
qed

lemma render_ne:
  assumes "valid_token lim mx tok"
  shows "render tok \<noteq> []"
  using assms by (cases tok) (auto simp: valid_token_def dest: py_int_ne split: option.splits)

lemma token_pages_render:
  assumes "valid_token lim mx tok"
  shows "token_pages lim mx (render tok) = denoted_pages lim tok"
proof -
  from assms obtain ab where ab: "token_value lim tok = Some ab" and r: "span_in_range mx ab"
    by (auto simp: valid_token_def span_in_range_def split: option.splits)
  from token_span_render [OF assms] ab have "token_span lim (render tok) = Some ab" by simp
  with ab r show ?thesis
    by (simp add: token_pages_def denoted_pages_def span_pages_def)
qed

lemma in_py_split: "x \<in> set s \<Longrightarrow> x \<noteq> c \<Longrightarrow> \<exists>p \<in> set (py_split c s). x \<in> set p"
proof (induction s)
  case Nil
  then show ?case by simp
next
  case (Cons y ys)
  show ?case
  proof (cases "x \<in> set ys")
    case True
    from Cons.IH [OF True Cons.prems(2)] obtain p where p: "p \<in> set (py_split c ys)" "x \<in> set p"
      by blast
    then show ?thesis by (cases "py_split c ys") auto
  next
    case False
    with Cons.prems have "x = y" "y \<noteq> c" by auto
    then show ?thesis using py_split_ne [of c ys] by (cases "py_split c ys") auto
  qed
qed

lemma token_span_no_comma:
  assumes "token_span lim t = Some ab"
  shows "CHR '','' \<notin> set t"
proof
  assume "CHR '','' \<in> set t"
  from in_py_split [OF this, of "CHR ''-''"] obtain p
    where p: "p \<in> set (py_split CHR ''-'' t)" "CHR '','' \<in> set p" by auto
  from assms p(1) have "py_int lim p \<noteq> None"
    by (auto simp: token_span_def split: list.splits option.splits)
  with p(2) show False using py_int_no_comma [of lim p] by auto
qed

lemma token_span_ne: "token_span lim t = Some ab \<Longrightarrow> t \<noteq> []"
  by (auto simp: token_span_def dest: py_int_ne)

lemma py_split_piece_no_sep: "p \<in> set (py_split c s) \<Longrightarrow> c \<notin> set p"
proof (induction s arbitrary: p)
  case Nil
  then show ?case by simp
next
  case (Cons x xs)
  obtain q qs where q: "py_split c xs = q # qs"
    using py_split_ne [of c xs] by (cases "py_split c xs") auto
  with Cons.IH have ih: "c \<notin> set q" "\<forall>r \<in> set qs. c \<notin> set r" by auto
  show ?case
  proof (cases "x = c")
    case True
    with Cons.prems q ih show ?thesis by auto
  next
    case False
    with Cons.prems q ih show ?thesis by auto
  qed
qed

lemma set_py_strip: "set (py_strip s) \<subseteq> set s"
proof
  fix c assume "c \<in> set (py_strip s)"
  then have "c \<in> set (dropWhile py_isspace (rev (dropWhile py_isspace s)))"
    by (simp add: py_strip_def)
  then have "c \<in> set (rev (dropWhile py_isspace s))" by (rule set_dropWhileD)
  then have "c \<in> set (dropWhile py_isspace s)" by simp
  then show "c \<in> set s" by (rule set_dropWhileD)
qed

lemma py_int_no_hyphen_nonneg:
  assumes "py_int lim s = Some k" and "CHR ''-'' \<notin> set s"
  shows "0 \<le> k"
proof -
  define t where "t = py_strip s"
  define body where
    "body = (if t \<noteq> [] \<and> (hd t = CHR ''+'' \<or> hd t = CHR ''-'') then tl t else t)"
  from assms(1) obtain ds where ds: "py_digits body = Some ds"
    and k: "k = (if t \<noteq> [] \<and> hd t = CHR ''-'' then - digits_value ds else digits_value ds)"
    by (auto simp: py_int_def Let_def t_def body_def split: option.splits if_splits)
  from py_digits_chars [OF ds] have nn: "0 \<le> digits_value ds"
    by (simp add: digits_value_nonneg)
  have "set t \<subseteq> set s" unfolding t_def by (rule set_py_strip)
  with assms(2) have "CHR ''-'' \<notin> set t" by blast
  then have "\<not> (t \<noteq> [] \<and> hd t = CHR ''-'')" by (cases t) auto
  with k nn show ?thesis by simp
qed

lemma token_span_nonneg:
  assumes "token_span lim t = Some ab"
  shows "0 \<le> fst ab \<and> 0 \<le> snd ab"
proof -
  have piece: "0 \<le> k" if "p \<in> set (py_split CHR ''-'' t)" "py_int lim p = Some k" for p k
    using that py_split_piece_no_sep [of p "CHR ''-''" t] py_int_no_hyphen_nonneg [of lim p k]
    by blast
  have p1: "0 \<le> k" if "py_split CHR ''-'' t = [x]" "py_int lim x = Some k" for x k
    using that piece [of x k] by simp
  have p2: "0 \<le> k" if "py_split CHR ''-'' t = [x, y]" "py_int lim x = Some k" for x y k
    using that piece [of x k] by simp
  have p3: "0 \<le> k" if "py_split CHR ''-'' t = [x, y]" "py_int lim y = Some k" for x y k
    using that piece [of y k] by simp
  from assms show ?thesis
    by (auto simp: token_span_def split: list.splits option.splits intro: p1 p2 p3)
qed

lemma spaces_not_int:
  assumes "\<forall>c \<in> set x. py_isspace c"
  shows "py_int lim x = None"
proof -
  from assms have "dropWhile py_isspace x = []" by (induction x) auto
  then have "py_strip x = []" by (simp only: py_strip_def rev.simps dropWhile.simps)
  then show ?thesis by (simp add: py_int_def)
qed

lemma py_strip_decomp:
  "\<exists>a b. s = a @ py_strip s @ b \<and> (\<forall>c \<in> set a. py_isspace c)"
proof -
  let ?v = "dropWhile py_isspace s"
  let ?tw = "takeWhile py_isspace (rev ?v)"
  let ?dw = "dropWhile py_isspace (rev ?v)"
  have 1: "s = takeWhile py_isspace s @ ?v" by (rule takeWhile_dropWhile_id [symmetric])
  have "rev ?v = ?tw @ ?dw" by (rule takeWhile_dropWhile_id [symmetric])
  then have "rev (rev ?v) = rev (?tw @ ?dw)" by (rule arg_cong)
  then have "?v = rev ?dw @ rev ?tw" by (simp only: rev_rev_ident rev_append)
  then have 2: "?v = py_strip s @ rev ?tw" by (simp only: py_strip_def)
  have 3: "\<forall>c \<in> set (takeWhile py_isspace s). py_isspace c"
    by (auto dest: set_takeWhileD)
  from 2 have "takeWhile py_isspace s @ ?v = takeWhile py_isspace s @ py_strip s @ rev ?tw"
    by (rule arg_cong)
  with 1 have "s = takeWhile py_isspace s @ py_strip s @ rev ?tw" by (rule trans)
  with 3 show ?thesis by blast
qed

lemma signed_numeral_malformed:
  assumes int: "py_int lim t = Some k" and h: "CHR ''-'' \<in> set t"
  shows "\<not> well_formed lim t"
proof -
  define u where "u = py_strip t"
  define body where
    "body = (if u \<noteq> [] \<and> (hd u = CHR ''+'' \<or> hd u = CHR ''-'') then tl u else u)"
  from int have "py_digits body \<noteq> None"
    unfolding py_int_def Let_def body_def u_def by (auto split: option.splits)
  then obtain ds where ds: "py_digits body = Some ds" by blast
  from py_digits_chars [OF ds] have bc: "\<forall>c \<in> set body. is_digit c \<or> c = CHR ''_''" by simp
  have nsp: "\<not> py_isspace CHR ''-''" by (simp add: py_isspace_def)
  from in_py_strip [OF h nsp] have hu: "CHR ''-'' \<in> set u" by (simp add: u_def)
  have nb: "CHR ''-'' \<notin> set body" using bc by (auto simp: is_digit_def)
  have u: "u = CHR ''-'' # body"
  proof (cases u)
    case Nil
    with hu show ?thesis by simp
  next
    case (Cons c cs)
    show ?thesis
    proof (cases "c = CHR ''-''")
      case True
      with Cons show ?thesis by (simp add: body_def)
    next
      case False
      with Cons hu have "CHR ''-'' \<in> set cs" by simp
      with Cons nb show ?thesis by (auto simp: body_def split: if_splits)
    qed
  qed
  from py_strip_decomp [of t] obtain a b
    where t: "t = a @ u @ b" and a: "\<forall>c \<in> set a. py_isspace c" unfolding u_def by blast
  from a nsp have na: "CHR ''-'' \<notin> set a" by blast
  from t u have t': "t = a @ CHR ''-'' # (body @ b)" by simp
  have "py_split CHR ''-'' t = py_split CHR ''-'' a @ py_split CHR ''-'' (body @ b)"
    unfolding t' by (rule py_split_append)
  with na have sp: "py_split CHR ''-'' t = a # py_split CHR ''-'' (body @ b)"
    by (simp add: py_split_no_sep)
  obtain y zs where yz: "py_split CHR ''-'' (body @ b) = y # zs"
    using py_split_ne [of "CHR ''-''" "body @ b"] by (cases "py_split CHR ''-'' (body @ b)") auto
  from spaces_not_int [OF a] have "py_int lim a = None" .
  with sp yz have "token_span lim t = None"
    by (cases zs) (simp_all add: token_span_def)
  then show ?thesis by (simp add: well_formed_def)
qed

section \<open>Claims about parse_page_range\<close>

text \<open>
  C1. An input made only of valid tokens, each a page number \<open>k\<close> with
  \<open>1 \<le> k \<le> max_pages\<close> or a span \<open>a-b\<close> with \<open>1 \<le> a \<le> b \<le> max_pages\<close>, joined by
  commas: \<open>parse_page_range\<close> shows no notice and returns the sorted list of the
  union of \<open>{k - 1}\<close> and \<open>{a - 1, ..., b - 1}\<close> over the tokens.
\<close>

theorem parse_page_range_valid_tokens:
  assumes ne: "toks \<noteq> []"
    and valid: "\<forall>tok \<in> set toks. valid_token lim max_pages tok"
  shows "parse_page_range lim (py_join CHR '','' (map render toks)) max_pages =
           ([], sorted_list_of_set (\<Union>tok \<in> set toks. denoted_pages lim tok))"
proof -
  let ?s = "py_join CHR '','' (map render toks)"
  have parts: "py_split CHR '','' ?s = map render toks"
    using ne valid by (intro py_split_join) (auto simp: render_no_comma)
  have s_ne: "?s \<noteq> []"
    using ne valid by (intro py_join_ne) (auto simp: render_ne)
  have wf: "\<forall>p \<in> set (py_split CHR '','' ?s). well_formed lim p"
  proof
    fix p assume "p \<in> set (py_split CHR '','' ?s)"
    then obtain tok where tok: "tok \<in> set toks" "p = render tok" unfolding parts by auto
    with valid have v: "valid_token lim max_pages tok" by blast
    then have "token_value lim tok \<noteq> None" by (auto simp: valid_token_def split: option.splits)
    with token_span_render [OF v] tok show "well_formed lim p"
      by (auto simp: well_formed_def split: option.splits)
  qed
  have pages: "token_pages lim max_pages (render tok) = denoted_pages lim tok"
    if "tok \<in> set toks" for tok
    using that valid by (simp add: token_pages_render)
  have "(\<Union>p \<in> set (py_split CHR '','' ?s). token_pages lim max_pages p) =
        (\<Union>tok \<in> set toks. denoted_pages lim tok)"
    unfolding parts using pages by auto
  with parse_page_range_char [OF s_ne, of lim max_pages] wf show ?thesis by simp
qed

theorem parse_page_range_valid_tokens_witness:
  "[Page ''1'', Span '' 3'' ''5''] \<noteq> [] \<and>
   valid_token 4300 10 (Page ''1'') \<and> valid_token 4300 10 (Span '' 3'' ''5'') \<and>
   parse_page_range 4300 ''1, 3-5'' 10 = ([], [0, 2, 3, 4])"
proof -
  have h1: "[Page ''1'', Span '' 3'' ''5''] \<noteq> []" by simp
  have h2: "\<forall>tok \<in> set [Page ''1'', Span '' 3'' ''5'']. valid_token 4300 10 tok"
    by code_simp
  have e1: "py_join CHR '','' (map render [Page ''1'', Span '' 3'' ''5'']) = ''1, 3-5''"
    by simp
  have e2: "sorted_list_of_set
              (\<Union>tok \<in> set [Page ''1'', Span '' 3'' ''5'']. denoted_pages 4300 tok) =
            [0, 2, 3, 4]"
    by code_simp
  from parse_page_range_valid_tokens [OF h1 h2]
  have "parse_page_range 4300 ''1, 3-5'' 10 = ([], [0, 2, 3, 4])"
    unfolding e1 e2 .
  with h1 h2 show ?thesis by simp
qed

text \<open>
  C2. For every \<open>max_pages\<close>, the empty input string gives all pages
  \<open>[0, 1, ..., max_pages - 1]\<close>, and no notice.
\<close>

theorem parse_page_range_empty:
  "parse_page_range lim [] max_pages = ([], [0..max_pages - 1])"
  by (simp add: parse_page_range_def py_range_def)

text \<open>
  C3, as the specification states it: a numeric token with an endpoint outside
  \<open>[1, max_pages]\<close> would be clamped and its clamped pages included. The code does
  not do that: with 5 pages, \<open>3-10\<close> would be clamped to pages 2, 3, 4 and \<open>9\<close> to
  page 4, but both tokens yield no page at all.
\<close>

theorem out_of_range_token_not_clamped:
  "token_span 4300 ''3-10'' = Some (3, 10) \<and>
   clamped_pages 5 (3, 10) = {2, 3, 4} \<and>
   parse_page_range 4300 ''3-10'' 5 = ([], []) \<and>
   \<not> clamped_pages 5 (3, 10) \<subseteq> set (snd (parse_page_range 4300 ''3-10'' 5)) \<and>
   token_span 4300 ''9'' = Some (9, 9) \<and>
   clamped_pages 5 (9, 9) = {4} \<and>
   parse_page_range 4300 ''9'' 5 = ([], []) \<and>
   \<not> clamped_pages 5 (9, 9) \<subseteq> set (snd (parse_page_range 4300 ''9'' 5))"
  by code_simp

text \<open>
  C3, amended: take a token that, cut at its hyphens, is one piece or two pieces, each
  accepted by \<open>int\<close>. Its endpoints are never negative, since a piece holds no minus
  sign. When its span is not inside \<open>[1, max_pages]\<close> (an endpoint equal to 0 or above
  \<open>max_pages\<close>, or the first above the second) the token is discarded whole. No
  endpoint is clamped and the token adds no page: after or before any non-empty
  input the result is that of the input without the token, and alone it gives the
  empty list. (A number written with a minus sign is not such a token; it is
  malformed, see C4.)
\<close>

theorem out_of_range_token_discarded:
  assumes ne: "s \<noteq> []"
    and t: "token_span lim t = Some ab"
    and out: "\<not> span_in_range max_pages ab"
  shows "parse_page_range lim (s @ CHR '','' # t) max_pages = parse_page_range lim s max_pages \<and>
         parse_page_range lim (t @ CHR '','' # s) max_pages = parse_page_range lim s max_pages \<and>
         parse_page_range lim t max_pages = ([], []) \<and>
         0 \<le> fst ab \<and> 0 \<le> snd ab"
proof -
  have split_t: "py_split CHR '','' t = [t]"
    using token_span_no_comma [OF t] by (rule py_split_no_sep)
  have wf: "well_formed lim t" using t by (simp add: well_formed_def)
  have none: "token_pages lim max_pages t = {}"
    using t out by (simp add: token_pages_def span_pages_def)
  have t_ne: "t \<noteq> []" using t by (rule token_span_ne)
  have a: "parse_page_range lim (s @ CHR '','' # t) max_pages = parse_page_range lim s max_pages"
    using ne wf none by (simp add: parse_page_range_char py_split_append split_t)
  have b: "parse_page_range lim (t @ CHR '','' # s) max_pages = parse_page_range lim s max_pages"
    using ne t_ne wf none by (simp add: parse_page_range_char py_split_append split_t)
  have c: "parse_page_range lim t max_pages = ([], [])"
    using t_ne wf none by (simp add: parse_page_range_char split_t)
  from a b c token_span_nonneg [OF t] show ?thesis by simp
qed

theorem out_of_range_token_discarded_witness:
  "''1'' \<noteq> [] \<and> token_span 4300 ''3-10'' = Some (3, 10) \<and> \<not> span_in_range 5 (3, 10) \<and>
   parse_page_range 4300 ''1,3-10'' 5 = ([], [0]) \<and>
   parse_page_range 4300 ''3-10,1'' 5 = ([], [0]) \<and>
   parse_page_range 4300 ''3-10'' 5 = ([], []) \<and>
   (0::int) \<le> fst (3, 10) \<and> (0::int) \<le> snd (3, 10)"
proof -
  have h1: "''1'' \<noteq> []" by simp
  have h2: "token_span 4300 ''3-10'' = Some (3, 10)" by code_simp
  have h3: "\<not> span_in_range 5 (3, 10)" by code_simp
  have e: "parse_page_range 4300 ''1'' 5 = ([], [0])" by code_simp
  from out_of_range_token_discarded [OF h1 h2 h3] h1 h2 h3 show ?thesis unfolding e by simp
qed

text \<open>
  C4, as the specification states it: an invalid token such as \<open>abc\<close> next to valid
  page numbers would be dropped silently and the pages of the valid tokens returned.
  The code does not do that: for \<open>1,abc\<close> it shows an error notice and returns all
  pages, not the page of the token \<open>1\<close>.
\<close>

theorem malformed_token_not_dropped:
  "parse_page_range 4300 ''1,abc'' 5 = ([Error invalid_range_msg], [0, 1, 2, 3, 4]) \<and>
   parse_page_range 4300 ''1'' 5 = ([], [0]) \<and>
   parse_page_range 4300 ''1,abc'' 5 \<noteq> parse_page_range 4300 ''1'' 5"
  by code_simp

text \<open>
  C4, amended: a token is well formed when, cut at its hyphens, it is one piece or two
  pieces and \<open>int\<close> accepts each piece; every other token is malformed, and so is
  every number written with a minus sign, such as \<open>-5\<close>, although \<open>int\<close> accepts it.
  For a non-empty input, when every comma-separated token is well formed the tokens
  whose span is not inside \<open>[1, max_pages]\<close> are dropped without a notice and the
  sorted pages of the other tokens are returned; when some token is malformed, an
  error notice is shown and all pages are returned.
\<close>

theorem parse_page_range_tokens:
  assumes "s \<noteq> []"
  shows "parse_page_range lim s max_pages =
     (if \<forall>p \<in> set (py_split CHR '','' s). well_formed lim p
      then ([], sorted_list_of_set
                  (\<Union>p \<in> set (py_split CHR '','' s). token_pages lim max_pages p))
      else ([Error invalid_range_msg], [0..max_pages - 1])) \<and>
     (\<forall>t k. py_int lim t = Some k \<and> CHR ''-'' \<in> set t \<longrightarrow> \<not> well_formed lim t)"
proof
  show "parse_page_range lim s max_pages =
     (if \<forall>p \<in> set (py_split CHR '','' s). well_formed lim p
      then ([], sorted_list_of_set
                  (\<Union>p \<in> set (py_split CHR '','' s). token_pages lim max_pages p))
      else ([Error invalid_range_msg], [0..max_pages - 1]))"
    using assms by (simp add: parse_page_range_char py_range_def)
  show "\<forall>t k. py_int lim t = Some k \<and> CHR ''-'' \<in> set t \<longrightarrow> \<not> well_formed lim t"
    using signed_numeral_malformed by blast
qed

theorem parse_page_range_tokens_witness:
  "''1,99'' \<noteq> [] \<and> parse_page_range 4300 ''1,99'' 5 = ([], [0]) \<and>
   ''1,abc'' \<noteq> [] \<and>
   parse_page_range 4300 ''1,abc'' 5 = ([Error invalid_range_msg], [0, 1, 2, 3, 4]) \<and>
   ''1,-5'' \<noteq> [] \<and> py_int 4300 ''-5'' = Some (- 5) \<and> \<not> well_formed 4300 ''-5'' \<and>
   parse_page_range 4300 ''1,-5'' 5 = ([Error invalid_range_msg], [0, 1, 2, 3, 4])"
proof -
  have h1: "''1,99'' \<noteq> []" and h2: "''1,abc'' \<noteq> []" and h3: "''1,-5'' \<noteq> []" by simp_all
  have i: "py_int 4300 ''-5'' = Some (- 5)" by code_simp
  have e1: "(if \<forall>p \<in> set (py_split CHR '','' ''1,99''). well_formed 4300 p
      then ([], sorted_list_of_set
                  (\<Union>p \<in> set (py_split CHR '','' ''1,99''). token_pages 4300 5 p))
      else ([Error invalid_range_msg], [0..5 - 1])) = ([], [0])"
    by code_simp
  have e2: "(if \<forall>p \<in> set (py_split CHR '','' ''1,abc''). well_formed 4300 p
      then ([], sorted_list_of_set
                  (\<Union>p \<in> set (py_split CHR '','' ''1,abc''). token_pages 4300 5 p))
      else ([Error invalid_range_msg], [0..5 - 1])) = ([Error invalid_range_msg], [0, 1, 2, 3, 4])"
    by code_simp
  have e3: "(if \<forall>p \<in> set (py_split CHR '','' ''1,-5''). well_formed 4300 p
      then ([], sorted_list_of_set
                  (\<Union>p \<in> set (py_split CHR '','' ''1,-5''). token_pages 4300 5 p))
      else ([Error invalid_range_msg], [0..5 - 1])) = ([Error invalid_range_msg], [0, 1, 2, 3, 4])"
    by code_simp
  note t1 = parse_page_range_tokens [OF h1, of 4300 5]
  note t2 = parse_page_range_tokens [OF h2, of 4300 5]
  note t3 = parse_page_range_tokens [OF h3, of 4300 5]
  from t1 have r1: "parse_page_range 4300 ''1,99'' 5 = ([], [0])"
    unfolding e1 by (rule conjunct1)
  from t2 have r2: "parse_page_range 4300 ''1,abc'' 5 = ([Error invalid_range_msg], [0, 1, 2, 3, 4])"
    unfolding e2 by (rule conjunct1)
  from t3 have r3: "parse_page_range 4300 ''1,-5'' 5 = ([Error invalid_range_msg], [0, 1, 2, 3, 4])"
    unfolding e3 by (rule conjunct1)
  from t3 have "\<forall>t k. py_int 4300 t = Some k \<and> CHR ''-'' \<in> set t \<longrightarrow> \<not> well_formed 4300 t"
    by (rule conjunct2)
  with i have m: "\<not> well_formed 4300 ''-5''" by auto
  from h1 r1 h2 r2 h3 i m r3 show ?thesis by (intro conjI)
qed

text \<open>
  C5. When the parsing raises an exception, which happens as soon as one
  comma-separated token is malformed (for example when every token is non-numeric),
  \<open>parse_page_range\<close> does not propagate it: it shows the error notice and returns
  all pages \<open>[0, 1, ..., max_pages - 1]\<close>.
\<close>

theorem parse_failure_all_pages:
  assumes "s \<noteq> []" and "p \<in> set (py_split CHR '','' s)" and "\<not> well_formed lim p"
  shows "parse_parts lim max_pages (py_split CHR '','' s) {} = Inl ValueError \<and>
         parse_page_range lim s max_pages = ([Error invalid_range_msg], [0..max_pages - 1])"
proof -
  from assms(2,3) have "\<exists>p \<in> set (py_split CHR '','' s). \<not> well_formed lim p" by blast
  from parse_parts_raises [OF this]
  have r: "parse_parts lim max_pages (py_split CHR '','' s) {} = Inl ValueError" .
  with assms(1) show ?thesis by (simp add: parse_page_range_def py_range_def)
qed

theorem parse_failure_all_pages_witness:
  "''abc,xyz'' \<noteq> [] \<and> ''abc'' \<in> set (py_split CHR '','' ''abc,xyz'') \<and>
   \<not> well_formed 4300 ''abc'' \<and> \<not> well_formed 4300 ''xyz'' \<and>
   parse_parts 4300 3 (py_split CHR '','' ''abc,xyz'') {} = Inl ValueError \<and>
   parse_page_range 4300 ''abc,xyz'' 3 = ([Error invalid_range_msg], [0, 1, 2])"
proof -
  have h1: "''abc,xyz'' \<noteq> []" by simp
  have h2: "''abc'' \<in> set (py_split CHR '','' ''abc,xyz'')" by code_simp
  have h3: "\<not> well_formed 4300 ''abc''" by code_simp
  have h4: "\<not> well_formed 4300 ''xyz''" by code_simp
  have e: "[0..(3::int) - 1] = [0, 1, 2]" by code_simp
  from parse_failure_all_pages [OF h1 h2 h3, of 3] h1 h2 h3 h4 show ?thesis unfolding e by simp
qed

text \<open>
  C6. For every input string and every \<open>max_pages\<close> (in particular every
  \<open>max_pages \<ge> 0\<close>), the returned list is strictly increasing, hence free of
  duplicates, and each of its elements lies in \<open>[0, max_pages - 1]\<close>.
\<close>

theorem parse_page_range_strictly_increasing:
  "sorted_wrt (<) (snd (parse_page_range lim s max_pages)) \<and>
   set (snd (parse_page_range lim s max_pages)) \<subseteq> {0..max_pages - 1}"
proof (cases "s \<noteq> [] \<and> (\<forall>p \<in> set (py_split CHR '','' s). well_formed lim p)")
  case True
  let ?P = "\<Union>p \<in> set (py_split CHR '','' s). token_pages lim max_pages p"
  have fin: "finite ?P" by (simp add: finite_token_pages)
  have sub: "?P \<subseteq> {0..max_pages - 1}" using token_pages_bounds by blast
  have "snd (parse_page_range lim s max_pages) = sorted_list_of_set ?P"
    using True by (simp add: parse_page_range_char)
  then show ?thesis using fin sub by simp
next
  case False
  have "snd (parse_page_range lim s max_pages) = py_range max_pages"
  proof (cases "s = []")
    case True
    then show ?thesis by (simp add: parse_page_range_def)
  next
    case ne: False
    with False have "\<not> (\<forall>p \<in> set (py_split CHR '','' s). well_formed lim p)" by blast
    then have "parse_page_range lim s max_pages = ([Error invalid_range_msg], py_range max_pages)"
      unfolding parse_page_range_char [OF ne] by (rule if_not_P)
    then show ?thesis by simp
  qed
  then show ?thesis by (simp add: py_range_strict py_range_set)
qed

theorem parse_page_range_strictly_increasing_witness:
  "(sorted_wrt (<) (snd (parse_page_range 4300 ''1-3, 2'' 5)) \<and>
    set (snd (parse_page_range 4300 ''1-3, 2'' 5)) \<subseteq> {0..5 - 1}) \<and>
   snd (parse_page_range 4300 ''1-3, 2'' 5) = [0, 1, 2]"
proof
  show "sorted_wrt (<) (snd (parse_page_range 4300 ''1-3, 2'' 5)) \<and>
    set (snd (parse_page_range 4300 ''1-3, 2'' 5)) \<subseteq> {0..5 - 1}"
    by (rule parse_page_range_strictly_increasing)
  show "snd (parse_page_range 4300 ''1-3, 2'' 5) = [0, 1, 2]" by code_simp
qed

section \<open>Claims about the conversion request\<close>

lemma mode_tests:
  "py_contains ''Digital'' digital_option"
  "\<not> py_contains ''Digital'' ocr_option"
  "py_contains ''Escaneado'' ocr_option"
  "\<not> py_contains ''Escaneado'' digital_option"
  by code_simp+

text \<open>
  convert_click_dispatch. On a conversion request whose page list is not empty, exactly one conversion
  function is called, chosen by the mode selector alone: \<open>convert_digital\<close> for the
  digital option and \<open>convert_ocr\<close> for the scanned (OCR) option; only the call of
  \<open>convert_ocr\<close> carries the language code.
\<close>

theorem convert_click_dispatch:
  assumes "snd (parse_page_range lim page_range_str 500) = pages_list" and "pages_list \<noteq> []"
  shows "convert_click lim digital_option lang pdf_bytes page_range_str =
           [Call_convert_digital pdf_bytes pages_list] \<and>
         convert_click lim ocr_option lang pdf_bytes page_range_str =
           [Call_convert_ocr pdf_bytes lang pages_list]"
  using assms by (simp add: convert_click_def mode_tests)

theorem convert_click_dispatch_witness:
  "snd (parse_page_range 4300 ''1,3-4'' 500) = [0, 2, 3] \<and> [0, 2, 3 :: int] \<noteq> [] \<and>
   convert_click 4300 digital_option ''eng'' () ''1,3-4'' = [Call_convert_digital () [0, 2, 3]] \<and>
   convert_click 4300 ocr_option ''eng'' () ''1,3-4'' = [Call_convert_ocr () ''eng'' [0, 2, 3]]"
proof -
  have h1: "snd (parse_page_range 4300 ''1,3-4'' 500) = [0, 2, 3]" by code_simp
  have h2: "[0, 2, 3 :: int] \<noteq> []" by simp
  from convert_click_dispatch [OF h1 h2] h1 h2 show ?thesis by simp
qed

section \<open>Claims about convert_ocr\<close>

lemma py_min_Min: "xs \<noteq> [] \<Longrightarrow> py_min xs = Inr (Min (set xs))"
proof (cases xs)
  case Nil
  moreover assume "xs \<noteq> []"
  ultimately show ?thesis by simp
next
  case (Cons x r)
  have "fold min r x = Min (set (x # r))" by (rule Min.set_eq_fold [symmetric])
  with Cons show ?thesis by (simp add: py_min_def)
qed

lemma py_max_Max: "xs \<noteq> [] \<Longrightarrow> py_max xs = Inr (Max (set xs))"
proof (cases xs)
  case Nil
  moreover assume "xs \<noteq> []"
  ultimately show ?thesis by simp
next
  case (Cons x r)
  have "fold max r x = Max (set (x # r))" by (rule Max.set_eq_fold [symmetric])
  with Cons show ?thesis by (simp add: py_max_def)
qed

lemma Min_succ: "ps \<noteq> [] \<Longrightarrow> Min ((\<lambda>p. p + 1) ` set ps) = Min (set ps) + (1::int)"
  using mono_Min_commute [of "\<lambda>p. p + (1::int)" "set ps"] by (simp add: mono_def)

lemma Max_succ: "ps \<noteq> [] \<Longrightarrow> Max ((\<lambda>p. p + 1) ` set ps) = Max (set ps) + (1::int)"
  using mono_Max_commute [of "\<lambda>p. p + (1::int)" "set ps"] by (simp add: mono_def)

lemma xml_compatible_Nil: "xml_compatible []"
  by (simp add: xml_compatible_def)

lemma xml_compatible_Cons: "xml_compatible (c # s) = (xml_char c \<and> xml_compatible s)"
  by (simp add: xml_compatible_def)

lemma xml_compatible_append:
  "xml_compatible (a @ b) = (xml_compatible a \<and> xml_compatible b)"
  by (simp add: xml_compatible_def)

lemma xml_compatible_nat_digits: "xml_compatible (nat_digits n)"
proof (induction n rule: nat_digits.induct)
  case (1 n)
  have "48 + n mod 10 < 256" by simp
  then have "of_char (char_of (48 + n mod 10) :: char) = 48 + n mod 10"
    by (simp add: of_char_of)
  then have last: "xml_compatible [char_of (48 + n mod 10)]"
    by (simp add: xml_compatible_def xml_char_def)
  show ?case
  proof (cases "n < 10")
    case True
    then have "n mod 10 = n" by simp
    with last True show ?thesis by (subst nat_digits.simps) simp
  next
    case False
    with "1.IH" last show ?thesis
      by (subst nat_digits.simps) (simp add: xml_compatible_append)
  qed
qed

lemma xml_compatible_py_str: "xml_compatible (py_str n)"
proof -
  have "xml_char CHR ''-''" by (simp add: xml_char_def)
  then have "xml_compatible (CHR ''-'' # nat_digits k)" for k
    by (simp add: xml_compatible_Cons xml_compatible_nat_digits)
  then show ?thesis by (simp add: py_str_def xml_compatible_nat_digits)
qed

lemma xml_compatible_page_heading: "xml_compatible (page_heading n)"
proof -
  show ?thesis
    unfolding page_heading_def using xml_compatible_py_str [of n]
    by (simp add: xml_compatible_append xml_compatible_Cons xml_compatible_Nil xml_char_def)
qed

lemma xml_compatible_ocr_title: "xml_compatible lang \<Longrightarrow> xml_compatible (ocr_title lang)"
proof -
  assume l: "xml_compatible lang"
  show ?thesis
    unfolding ocr_title_def using l
    by (simp add: xml_compatible_append xml_compatible_Cons xml_compatible_Nil xml_char_def)
qed

lemma convert_ocr_unfold:
  assumes "pages \<noteq> []" and "xml_compatible lang"
  shows "convert_ocr cfb its pdf lang pages =
     (case cfb pdf (Min (set pages) + 1) (Max (set pages) + 1) of
        Inl e \<Rightarrow> Inl e
      | Inr images \<Rightarrow>
          ocr_images its lang (Min (set pages) + 1) 0 images [Heading 0 (ocr_title lang)])"
proof -
  from assms(2) have "add_heading (ocr_title lang) 0 [] = Inr [Heading 0 (ocr_title lang)]"
    by (simp add: add_heading_def xml_compatible_ocr_title)
  with assms(1) show ?thesis
    by (simp add: convert_ocr_def py_min_Min py_max_Max Min_succ Max_succ split: sum.splits)
qed

lemma ocr_images_step:
  assumes "its img lang = Inr t" and "xml_compatible t"
  shows "ocr_images its lang first i (img # images) doc =
         ocr_images its lang first (i + 1) images
           (doc @ [Heading 3 (page_heading (i + first)), Paragraph t, PageBreak])"
  using assms
  by (simp add: add_heading_def add_paragraph_def add_page_break_def xml_compatible_page_heading)

lemma ocr_images_enumerate:
  "\<forall>img \<in> set images. its img lang = Inr (text img) \<and> xml_compatible (text img) \<Longrightarrow>
   ocr_images its lang first (int n) images doc =
     Inr (doc @ concat (map (\<lambda>(i, img). [Heading 3 (page_heading (first + int i)),
                                         Paragraph (text img), PageBreak])
                         (enumerate n images)))"
proof (induction images arbitrary: n doc)
  case Nil
  then show ?case by simp
next
  case (Cons img images)
  from Cons.prems
  have rest: "\<forall>img \<in> set images. its img lang = Inr (text img) \<and> xml_compatible (text img)"
    and here: "its img lang = Inr (text img)" "xml_compatible (text img)" by simp_all
  have "int n + 1 = int (Suc n)" by simp
  with Cons.IH [OF rest, of "Suc n"] show ?case
    unfolding ocr_images_step [where its = its and img = img and lang = lang and t = "text img", OF here]
    by (simp add: add.commute)
qed

text \<open>
  When the text of the first page holds a control character, as it does when the OCR
  engine ends the page with a form feed, no document is produced.
\<close>

lemma ocr_images_control_character:
  assumes "its img lang = Inr t" and "\<not> xml_compatible t"
  shows "ocr_images its lang first i (img # images) doc = Inl ValueError"
  using assms
  by (simp add: add_heading_def add_paragraph_def xml_compatible_page_heading)

text \<open>
  C8. For a non-empty page selection, when the rasterizer and the OCR engine succeed
  and the language code and the OCR texts hold no control character that the document
  library refuses, \<open>convert_ocr\<close> produces a document, and it is the title heading
  followed, for each image in ascending page order, by a level-3 heading naming the
  page, a paragraph with the OCR text of that page, and a page break.
\<close>

theorem convert_ocr_document:
  assumes "pages_to_convert \<noteq> []"
    and "convert_from_bytes pdf_bytes (Min (set pages_to_convert) + 1)
           (Max (set pages_to_convert) + 1) = Inr images"
    and "\<forall>img \<in> set images.
           image_to_string img lang_code = Inr (text img) \<and> xml_compatible (text img)"
    and "xml_compatible lang_code"
  shows "convert_ocr convert_from_bytes image_to_string pdf_bytes lang_code pages_to_convert =
     Inr (Heading 0 (''Documento Convertido por OCR ('' @ lang_code @ '')'') #
          concat (map (\<lambda>(i, img).
                         [Heading 3 (''--- P'' @ [CHR 0xE1] @ ''gina '' @
                                     py_str (Min (set pages_to_convert) + 1 + int i) @ '' ---''),
                          Paragraph (text img), PageBreak])
                      (enumerate 0 images)))"
proof -
  have "ocr_images image_to_string lang_code (Min (set pages_to_convert) + 1) (int 0) images
          [Heading 0 (ocr_title lang_code)] =
        Inr ([Heading 0 (ocr_title lang_code)] @
             concat (map (\<lambda>(i, img). [Heading 3 (page_heading (Min (set pages_to_convert) + 1 + int i)),
                                        Paragraph (text img), PageBreak])
                         (enumerate 0 images)))"
    using assms(3) by (rule ocr_images_enumerate)
  with assms(2) show ?thesis
    by (simp add: convert_ocr_unfold [OF assms(1) assms(4)] ocr_title_def page_heading_def)
qed

theorem convert_ocr_document_witness:
  "[0, 2 :: int] \<noteq> [] \<and>
   (Inr [Min (set [0, 2]) + 1..Max (set [0, 2]) + 1] :: error + int list) = Inr [1, 2, 3] \<and>
   xml_compatible (py_str 1 @ ''spa'') \<and> xml_compatible (py_str 2 @ ''spa'') \<and>
   xml_compatible (py_str 3 @ ''spa'') \<and> xml_compatible ''spa'' \<and>
   convert_ocr (\<lambda>pdf f l. Inr [f..l]) (\<lambda>img lang. Inr (py_str img @ lang)) () ''spa'' [0, 2] =
     Inr [Heading 0 ''Documento Convertido por OCR (spa)'',
          Heading 3 (''--- P'' @ [CHR 0xE1] @ ''gina 1 ---''), Paragraph ''1spa'', PageBreak,
          Heading 3 (''--- P'' @ [CHR 0xE1] @ ''gina 2 ---''), Paragraph ''2spa'', PageBreak,
          Heading 3 (''--- P'' @ [CHR 0xE1] @ ''gina 3 ---''), Paragraph ''3spa'', PageBreak]"
proof -
  define cfb :: "unit \<Rightarrow> int \<Rightarrow> int \<Rightarrow> error + int list" where "cfb = (\<lambda>pdf f l. Inr [f..l])"
  define its :: "int \<Rightarrow> string \<Rightarrow> error + string"
    where "its = (\<lambda>img lang. Inr (py_str img @ lang))"
  define ptext :: "int \<Rightarrow> string" where "ptext = (\<lambda>img. py_str img @ ''spa'')"
  have h1: "[0, 2 :: int] \<noteq> []" by simp
  have h2': "(Inr [Min (set [0, 2]) + 1..Max (set [0, 2]) + 1] :: error + int list) = Inr [1, 2, 3]"
    by code_simp
  then have h2: "cfb () (Min (set [0, 2]) + 1) (Max (set [0, 2]) + 1) = Inr [1, 2, 3]"
    by (simp add: cfb_def)
  have x1: "xml_compatible (py_str 1 @ ''spa'')" and x2: "xml_compatible (py_str 2 @ ''spa'')"
    and x3: "xml_compatible (py_str 3 @ ''spa'')" and h4: "xml_compatible ''spa''"
    by code_simp+
  have h3: "\<forall>img \<in> set [1, 2, 3]. its img ''spa'' = Inr (ptext img) \<and> xml_compatible (ptext img)"
    using x1 x2 x3 by (simp add: its_def ptext_def)
  have e: "(Inr (Heading 0 (''Documento Convertido por OCR ('' @ ''spa'' @ '')'') #
            concat (map (\<lambda>(i, img).
                           [Heading 3 (''--- P'' @ [CHR 0xE1] @ ''gina '' @
                                       py_str (Min (set [0, 2]) + 1 + int i) @ '' ---''),
                            Paragraph (ptext img), PageBreak])
                        (enumerate 0 [1, 2, 3]))) :: error + block list) =
     Inr [Heading 0 ''Documento Convertido por OCR (spa)'',
          Heading 3 (''--- P'' @ [CHR 0xE1] @ ''gina 1 ---''), Paragraph ''1spa'', PageBreak,
          Heading 3 (''--- P'' @ [CHR 0xE1] @ ''gina 2 ---''), Paragraph ''2spa'', PageBreak,
          Heading 3 (''--- P'' @ [CHR 0xE1] @ ''gina 3 ---''), Paragraph ''3spa'', PageBreak]"
    unfolding ptext_def by code_simp
  from convert_ocr_document [of "[0, 2]" cfb "()" "[1, 2, 3]" its "''spa''" ptext, OF h1 h2 h3 h4]
  have "convert_ocr cfb its () ''spa'' [0, 2] =
     Inr [Heading 0 ''Documento Convertido por OCR (spa)'',
          Heading 3 (''--- P'' @ [CHR 0xE1] @ ''gina 1 ---''), Paragraph ''1spa'', PageBreak,
          Heading 3 (''--- P'' @ [CHR 0xE1] @ ''gina 2 ---''), Paragraph ''2spa'', PageBreak,
          Heading 3 (''--- P'' @ [CHR 0xE1] @ ''gina 3 ---''), Paragraph ''3spa'', PageBreak]"
    unfolding e .
  then have r: "convert_ocr (\<lambda>pdf f l. Inr [f..l]) (\<lambda>img lang. Inr (py_str img @ lang)) () ''spa'' [0, 2] =
     Inr [Heading 0 ''Documento Convertido por OCR (spa)'',
          Heading 3 (''--- P'' @ [CHR 0xE1] @ ''gina 1 ---''), Paragraph ''1spa'', PageBreak,
          Heading 3 (''--- P'' @ [CHR 0xE1] @ ''gina 2 ---''), Paragraph ''2spa'', PageBreak,
          Heading 3 (''--- P'' @ [CHR 0xE1] @ ''gina 3 ---''), Paragraph ''3spa'', PageBreak]"
    unfolding cfb_def its_def .
  from h1 h2' x1 x2 x3 h4 r show ?thesis by (intro conjI)
qed

lemma ocr_images_range:
  "\<forall>n \<in> {a..l}. its (page n) lang = Inr (text n) \<and> xml_compatible (text n) \<Longrightarrow>
   ocr_images its lang first (a - first) (map page [a..l]) doc =
     Inr (doc @ concat (map (\<lambda>n. [Heading 3 (page_heading n), Paragraph (text n), PageBreak])
                         [a..l]))"
proof (induction "nat (l + 1 - a)" arbitrary: a doc)
  case 0
  then have "[a..l] = []" by simp
  then show ?case by simp
next
  case (Suc k)
  then have le: "a \<le> l" by simp
  then have up: "[a..l] = a # [a + 1..l]" by (simp add: upto_rec1)
  from Suc.hyps(2) have k: "k = nat (l + 1 - (a + 1))" by simp
  from Suc.prems le have here: "its (page a) lang = Inr (text a)" "xml_compatible (text a)"
    by simp_all
  from Suc.prems
  have rest: "\<forall>n \<in> {a + 1..l}. its (page n) lang = Inr (text n) \<and> xml_compatible (text n)"
    by simp
  have idx: "a - first + 1 = a + 1 - first" by simp
  from Suc.hyps(1) [OF k rest] show ?case
    unfolding up list.map
      ocr_images_step [where its = its and img = "page a" and lang = lang and t = "text a", OF here]
    by (simp add: idx)
qed

text \<open>
  C10. For a non-empty 0-indexed selection, \<open>convert_ocr\<close> asks the rasterizer for
  the contiguous 1-indexed range from \<open>min + 1\<close> to \<open>max + 1\<close> and processes every
  page of it, selected or not: with a rasterizer that returns the pages it is asked
  for, and OCR texts and a language code that the document library accepts, each
  page of that range gets its heading and its OCR text. The selection \<open>{0, 4}\<close>
  makes pages 1 to 5 all appear.
\<close>

theorem convert_ocr_contiguous_range:
  assumes "pages_to_convert \<noteq> []"
    and "first_page = Min (set pages_to_convert) + 1"
    and "last_page = Max (set pages_to_convert) + 1"
    and "convert_from_bytes pdf_bytes first_page last_page = Inr (map page [first_page..last_page])"
    and "\<forall>n \<in> {first_page..last_page}.
           image_to_string (page n) lang_code = Inr (text n) \<and> xml_compatible (text n)"
    and "xml_compatible lang_code"
  shows "convert_ocr convert_from_bytes image_to_string pdf_bytes lang_code pages_to_convert =
     Inr (Heading 0 (''Documento Convertido por OCR ('' @ lang_code @ '')'') #
          concat (map (\<lambda>n. [Heading 3 (''--- P'' @ [CHR 0xE1] @ ''gina '' @ py_str n @ '' ---''),
                            Paragraph (text n), PageBreak])
                      [first_page..last_page]))"
proof -
  have "ocr_images image_to_string lang_code first_page (first_page - first_page)
          (map page [first_page..last_page]) [Heading 0 (ocr_title lang_code)] =
        Inr ([Heading 0 (ocr_title lang_code)] @
             concat (map (\<lambda>n. [Heading 3 (page_heading n), Paragraph (text n), PageBreak])
                         [first_page..last_page]))"
    using assms(5) by (rule ocr_images_range)
  with assms(4) show ?thesis
    by (simp add: convert_ocr_unfold [OF assms(1) assms(6)] assms(2) [symmetric]
          assms(3) [symmetric] ocr_title_def page_heading_def)
qed

theorem convert_ocr_contiguous_range_witness:
  "[0, 4 :: int] \<noteq> [] \<and> (1::int) = Min (set [0, 4]) + 1 \<and> (5::int) = Max (set [0, 4]) + 1 \<and>
   xml_compatible ''spa'' \<and>
   convert_ocr (\<lambda>pdf f l. Inr [f..l]) (\<lambda>img lang. Inr (py_str img)) () ''spa'' [0, 4] =
     Inr [Heading 0 ''Documento Convertido por OCR (spa)'',
          Heading 3 (''--- P'' @ [CHR 0xE1] @ ''gina 1 ---''), Paragraph ''1'', PageBreak,
          Heading 3 (''--- P'' @ [CHR 0xE1] @ ''gina 2 ---''), Paragraph ''2'', PageBreak,
          Heading 3 (''--- P'' @ [CHR 0xE1] @ ''gina 3 ---''), Paragraph ''3'', PageBreak,
          Heading 3 (''--- P'' @ [CHR 0xE1] @ ''gina 4 ---''), Paragraph ''4'', PageBreak,
          Heading 3 (''--- P'' @ [CHR 0xE1] @ ''gina 5 ---''), Paragraph ''5'', PageBreak]"
proof -
  define cfb :: "unit \<Rightarrow> int \<Rightarrow> int \<Rightarrow> error + int list" where "cfb = (\<lambda>pdf f l. Inr [f..l])"
  define its :: "int \<Rightarrow> string \<Rightarrow> error + string" where "its = (\<lambda>img lang. Inr (py_str img))"
  define page :: "int \<Rightarrow> int" where "page = (\<lambda>n. n)"
  have h1: "[0, 4 :: int] \<noteq> []" by simp
  have h2: "(1::int) = Min (set [0, 4]) + 1" by simp
  have h3: "(5::int) = Max (set [0, 4]) + 1" by simp
  have h4: "cfb () 1 5 = Inr (map page [1..5])" by (simp add: cfb_def page_def)
  have h5: "\<forall>n \<in> {1..5}. its (page n) ''spa'' = Inr (py_str n) \<and> xml_compatible (py_str n)"
    by (simp add: its_def page_def xml_compatible_py_str)
  have h6: "xml_compatible ''spa''" by code_simp
  have e: "(Inr (Heading 0 (''Documento Convertido por OCR ('' @ ''spa'' @ '')'') #
            concat (map (\<lambda>n. [Heading 3 (''--- P'' @ [CHR 0xE1] @ ''gina '' @ py_str n @ '' ---''),
                              Paragraph (py_str n), PageBreak])
                        [1..5])) :: error + block list) =
     Inr [Heading 0 ''Documento Convertido por OCR (spa)'',
          Heading 3 (''--- P'' @ [CHR 0xE1] @ ''gina 1 ---''), Paragraph ''1'', PageBreak,
          Heading 3 (''--- P'' @ [CHR 0xE1] @ ''gina 2 ---''), Paragraph ''2'', PageBreak,
          Heading 3 (''--- P'' @ [CHR 0xE1] @ ''gina 3 ---''), Paragraph ''3'', PageBreak,
          Heading 3 (''--- P'' @ [CHR 0xE1] @ ''gina 4 ---''), Paragraph ''4'', PageBreak,
          Heading 3 (''--- P'' @ [CHR 0xE1] @ ''gina 5 ---''), Paragraph ''5'', PageBreak]"
    by code_simp
  from convert_ocr_contiguous_range
         [of "[0, 4]" 1 5 cfb "()" page its "''spa''" py_str, OF h1 h2 h3 h4 h5 h6]
  have "convert_ocr cfb its () ''spa'' [0, 4] =
     Inr [Heading 0 ''Documento Convertido por OCR (spa)'',
          Heading 3 (''--- P'' @ [CHR 0xE1] @ ''gina 1 ---''), Paragraph ''1'', PageBreak,
          Heading 3 (''--- P'' @ [CHR 0xE1] @ ''gina 2 ---''), Paragraph ''2'', PageBreak,
          Heading 3 (''--- P'' @ [CHR 0xE1] @ ''gina 3 ---''), Paragraph ''3'', PageBreak,
          Heading 3 (''--- P'' @ [CHR 0xE1] @ ''gina 4 ---''), Paragraph ''4'', PageBreak,
          Heading 3 (''--- P'' @ [CHR 0xE1] @ ''gina 5 ---''), Paragraph ''5'', PageBreak]"
    unfolding e .
  then have r: "convert_ocr (\<lambda>pdf f l. Inr [f..l]) (\<lambda>img lang. Inr (py_str img)) () ''spa'' [0, 4] =
     Inr [Heading 0 ''Documento Convertido por OCR (spa)'',
          Heading 3 (''--- P'' @ [CHR 0xE1] @ ''gina 1 ---''), Paragraph ''1'', PageBreak,
          Heading 3 (''--- P'' @ [CHR 0xE1] @ ''gina 2 ---''), Paragraph ''2'', PageBreak,
          Heading 3 (''--- P'' @ [CHR 0xE1] @ ''gina 3 ---''), Paragraph ''3'', PageBreak,
          Heading 3 (''--- P'' @ [CHR 0xE1] @ ''gina 4 ---''), Paragraph ''4'', PageBreak,
          Heading 3 (''--- P'' @ [CHR 0xE1] @ ''gina 5 ---''), Paragraph ''5'', PageBreak]"
    unfolding cfb_def its_def .
  from h1 h2 h3 h6 r show ?thesis by (intro conjI)
qed

section \<open>Claims about the dependency check\<close>

text \<open>
  missing_binary_disables_ocr. When \<open>tesseract\<close> or \<open>pdftoppm\<close> is not on the PATH, the mode selector is
  disabled and the sidebar shows the warning that OCR mode is disabled, together with
  an error notice for each missing program. The check itself cannot fail: it yields
  its notices and the flag for every PATH.
\<close>

theorem missing_binary_disables_ocr:
  assumes "which ''tesseract'' = None \<or> which ''pdftoppm'' = None"
  shows "snd (dependency_check which) \<and>
         Warning ocr_disabled_msg \<in> set (fst (dependency_check which)) \<and>
         (which ''tesseract'' = None \<longrightarrow>
            Error tesseract_missing_msg \<in> set (fst (dependency_check which))) \<and>
         (which ''pdftoppm'' = None \<longrightarrow>
            Error poppler_missing_msg \<in> set (fst (dependency_check which)))"
  using assms by (auto simp: dependency_check_def Let_def)

theorem missing_binary_disables_ocr_witness:
  "(\<lambda>s. if s = ''tesseract'' then Some ''/usr/bin/tesseract'' else None) ''pdftoppm'' = None \<and>
   snd (dependency_check (\<lambda>s. if s = ''tesseract'' then Some ''/usr/bin/tesseract'' else None)) \<and>
   Warning ocr_disabled_msg \<in>
     set (fst (dependency_check (\<lambda>s. if s = ''tesseract'' then Some ''/usr/bin/tesseract'' else None))) \<and>
   Error poppler_missing_msg \<in>
     set (fst (dependency_check (\<lambda>s. if s = ''tesseract'' then Some ''/usr/bin/tesseract'' else None)))"
proof -
  let ?which = "\<lambda>s. if s = ''tesseract'' then Some ''/usr/bin/tesseract'' else None"
  have p: "?which ''pdftoppm'' = None" by simp
  then have h: "?which ''tesseract'' = None \<or> ?which ''pdftoppm'' = None" by (rule disjI2)
  from missing_binary_disables_ocr [of ?which, OF h] p show ?thesis by blast
qed

end
